theory Spec2Isabelle
  imports Complex_Main "HOL-Library.Multiset" "HOL-Library.Word"
begin

section \<open>Ticket generator (generateTicket, src/app.js lines 192-217)\<close>

text \<open>
  A cell of the grid is what the inner loop pushes onto the row: a number taken out of a
  column pool, the blank marker \<^verbatim>\<open>'x'\<close>, or JavaScript's \<^verbatim>\<open>undefined\<close>
  (what \<^verbatim>\<open>splice(i, 1)[0]\<close> yields when nothing was removed).
\<close>

datatype cell = Number nat | X | Undefined

text \<open>
  \<^verbatim>\<open>Math.random()\<close> is read from a source \<open>rnd\<close>: the \<open>k\<close>-th call returns \<open>rnd k\<close>.
  ECMAScript promises \<open>0 \<le> rnd k < 1\<close>; the theorems that need this say so. The product
  \<^verbatim>\<open>Math.random() * columns[j].length\<close> is taken exactly.
\<close>

type_synonym random_source = "nat \<Rightarrow> rat"

definition in_unit_interval :: "random_source \<Rightarrow> bool" where
  "in_unit_interval rnd = (\<forall>k. 0 \<le> rnd k \<and> rnd k < 1)"

text \<open>
  The first loop: \<^verbatim>\<open>for (let i = 1; i <= 90; i++) columns[Math.floor((i - 1) / 10)].push(i)\<close>
  over nine empty arrays.
\<close>

definition push_column :: "nat \<Rightarrow> nat list list \<Rightarrow> nat list list" where
  "push_column i columns =
     (let column = (i - 1) div 10 in columns[column := columns ! column @ [i]])"

definition init_columns :: "nat list list" where
  "init_columns = fold push_column [1..<91] (replicate 9 [])"

text \<open>
  \<^verbatim>\<open>Array.prototype.splice(start, 1)\<close>: a negative start counts from the end, a start
  beyond the end is the end. The result is the removed elements and the array left.
\<close>

definition splice1 :: "int \<Rightarrow> 'a list \<Rightarrow> 'a list \<times> 'a list" where
  "splice1 start xs =
     (let len = int (length xs);
          s = (if start < 0 then max (len + start) 0 else min start len);
          n = nat s
      in (take 1 (drop n xs), take n xs @ drop (Suc n) xs))"

text \<open>
  One pass of the inner loop body for column \<open>j\<close>. The state is the column pools, the
  number of calls made to \<^verbatim>\<open>Math.random\<close> so far, and the row under construction.
\<close>

fun draw_cell ::
  "random_source \<Rightarrow> nat \<Rightarrow> nat list list \<times> nat \<times> cell list \<Rightarrow> nat list list \<times> nat \<times> cell list"
where
  "draw_cell rnd j (columns, k, row) =
     (if length (columns ! j) > 0 then
        (let randomIndex = \<lfloor>rnd k * of_nat (length (columns ! j))\<rfloor>;
             (removed, rest) = splice1 randomIndex (columns ! j);
             number = (case removed of [] \<Rightarrow> Undefined | n # _ \<Rightarrow> Number n)
         in (columns[j := rest], Suc k, row @ [number]))
      else (columns, k, row @ [X]))"

text \<open>The inner loop \<^verbatim>\<open>for (let j = 0; j < 9; j++)\<close>, starting from an empty row.\<close>

definition fill_row ::
  "random_source \<Rightarrow> nat list list \<times> nat \<Rightarrow> nat list list \<times> nat \<times> cell list" where
  "fill_row rnd st = fold (draw_cell rnd) [0..<9] (fst st, snd st, [])"

text \<open>One pass of the outer loop body: build a row, push it onto \<^verbatim>\<open>ticketData\<close>.\<close>

fun push_row ::
  "random_source \<Rightarrow> nat \<Rightarrow> nat list list \<times> nat \<times> cell list list
     \<Rightarrow> nat list list \<times> nat \<times> cell list list"
where
  "push_row rnd i (columns, k, ticketData) =
     (case fill_row rnd (columns, k) of
        (columns', k', row) \<Rightarrow> (columns', k', ticketData @ [row]))"

text \<open>
  \<open>generateTicket rnd k\<close> is the grid returned when \<open>k\<close> calls to \<^verbatim>\<open>Math.random\<close> were
  made before, together with the number of calls made after.
\<close>

definition generateTicket :: "random_source \<Rightarrow> nat \<Rightarrow> cell list list \<times> nat" where
  "generateTicket rnd k =
     (case fold (push_row rnd) [0..<3] (init_columns, k, []) of
        (columns, k', ticketData) \<Rightarrow> (ticketData, k'))"

text \<open>The numbers in a list of cells, in reading order.\<close>

fun cell_numbers :: "cell list \<Rightarrow> nat list" where
  "cell_numbers [] = []"
| "cell_numbers (Number n # cs) = n # cell_numbers cs"
| "cell_numbers (X # cs) = cell_numbers cs"
| "cell_numbers (Undefined # cs) = cell_numbers cs"

fun is_number :: "cell \<Rightarrow> bool" where
  "is_number (Number n) = True"
| "is_number X = False"
| "is_number Undefined = False"

text \<open>
  Two sample random sources: one that always returns 0 (each draw takes the first number
  left in the pool) and one that always returns 0.9 (each draw takes the last one).
\<close>

definition always_first :: random_source where "always_first k = 0"

definition always_last :: random_source where "always_last k = 9 / 10"

text \<open>
  The range of column \<open>c\<close> as the first loop assigns it: \<open>i\<close> goes to column
  \<open>(i - 1) div 10\<close>, so column \<open>c\<close> receives \<open>10 c + 1 .. 10 c + 10\<close>.
\<close>

definition in_column_range :: "nat \<Rightarrow> nat \<Rightarrow> bool" where
  "in_column_range c n = (10 * c + 1 \<le> n \<and> n \<le> 10 * c + 10)"

definition pools_in_range :: "nat list list \<Rightarrow> bool" where
  "pools_in_range cols = (\<forall>j < length cols. \<forall>n \<in> set (cols ! j). in_column_range j n)"

definition row_in_range :: "cell list \<Rightarrow> bool" where
  "row_in_range row = (\<forall>j < length row. \<forall>n. row ! j = Number n \<longrightarrow> in_column_range j n)"

text \<open>
  The range of column \<open>c\<close> in the words of the specification: column 0 holds 1 to 9,
  column \<open>c\<close> for \<open>1 \<le> c \<le> 7\<close> holds \<open>10 c + 1\<close> to \<open>10 c + 10\<close>, column 8 holds 81 to 90.
\<close>

definition spec_column_range :: "nat \<Rightarrow> nat \<Rightarrow> bool" where
  "spec_column_range c n =
     (if c = 0 then 1 \<le> n \<and> n \<le> 9
      else if c \<le> 7 then 10 * c + 1 \<le> n \<and> n \<le> 10 * c + 10
      else 81 \<le> n \<and> n \<le> 90)"

text \<open>The number of numeric cells and of blank cells of a row.\<close>

fun is_blank :: "cell \<Rightarrow> bool" where
  "is_blank (Number n) = False"
| "is_blank X = True"
| "is_blank Undefined = False"

definition numeric_cells :: "cell list \<Rightarrow> nat" where
  "numeric_cells row = length (filter is_number row)"

definition blank_cells :: "cell list \<Rightarrow> nat" where
  "blank_cells row = length (filter is_blank row)"

section \<open>Ticket identifiers (generateUniqueTicketId, src/app.js lines 165-170)\<close>

text \<open>
  \<^verbatim>\<open>Number.prototype.toString(36)\<close>, for the two kinds of number the function applies it to.
  An integer is written with the digits \<^verbatim>\<open>0-9a-z\<close>, a minus sign first when negative. A
  number \<open>u\<close> with \<open>0 \<le> u < 1\<close> is written \<^verbatim>\<open>0\<close> when it is zero, and otherwise \<^verbatim>\<open>0.\<close>
  followed by the digits of its base-36 expansion, which ends when nothing is left to
  write. The model writes the exact expansion, cut at 1100 digits. An engine may stop
  sooner on a long expansion, once the digits written determine the number; the function
  below reads the first five digits only.
\<close>

definition digit36 :: "nat \<Rightarrow> char" where
  "digit36 d = ''0123456789abcdefghijklmnopqrstuvwxyz'' ! d"

function digits36 :: "int \<Rightarrow> string" where
  "digits36 n =
     (if n < 36 then [digit36 (nat n)] else digits36 (n div 36) @ [digit36 (nat (n mod 36))])"
  by pat_completeness auto
termination
  by (relation "measure nat") auto

declare digits36.simps [simp del]

definition int_toString36 :: "int \<Rightarrow> string" where
  "int_toString36 i = (if i < 0 then ''-'' @ digits36 (- i) else digits36 i)"

function frac_digits36 :: "nat \<Rightarrow> rat \<Rightarrow> nat list" where
  "frac_digits36 fuel u =
     (if fuel = 0 \<or> u = 0 then []
      else (let d = nat \<lfloor>u * 36\<rfloor> in d # frac_digits36 (fuel - 1) (u * 36 - of_nat d)))"
  by pat_completeness auto
termination
  by (relation "measure fst") auto

declare frac_digits36.simps [simp del]

definition unit_toString36 :: "rat \<Rightarrow> string" where
  "unit_toString36 u =
     (if u = 0 then ''0'' else ''0.'' @ map digit36 (frac_digits36 1100 u))"

text \<open>\<^verbatim>\<open>String.prototype.substr(start, length)\<close> for a start that is not negative.\<close>

definition substr :: "nat \<Rightarrow> nat \<Rightarrow> string \<Rightarrow> string" where
  "substr start len s = take len (drop start s)"

text \<open>
  \<open>generateUniqueTicketId now u\<close> is the identifier built when \<^verbatim>\<open>Date.now()\<close> returns
  \<open>now\<close> and \<^verbatim>\<open>Math.random()\<close> returns \<open>u\<close>. \<open>random_part\<close> is the local \<^verbatim>\<open>random\<close>.
\<close>

definition random_part :: "rat \<Rightarrow> string" where
  "random_part u = substr 2 5 (unit_toString36 u)"

definition generateUniqueTicketId :: "int \<Rightarrow> rat \<Rightarrow> string" where
  "generateUniqueTicketId now u =
     (let timestamp = int_toString36 now;
          random = random_part u
      in timestamp @ random)"

section \<open>Stores and responses\<close>

text \<open>
  A JavaScript string is a sequence of UTF-16 code units. \<open>js s\<close> is the JavaScript
  string of the ASCII text \<open>s\<close>.
\<close>

type_synonym code_unit = "16 word"

type_synonym jsstring = "code_unit list"

definition js :: "string \<Rightarrow> jsstring" where
  "js s = map of_char s"

text \<open>
  The two collections (src/app.js lines 26-39) are lists of documents in insertion order.
  A response is its status code and its JSON body; \<^verbatim>\<open>res.json\<close> without \<^verbatim>\<open>res.status\<close>
  answers 200.
\<close>

record user =
  username :: jsstring
  password :: jsstring
  email :: jsstring
  name :: jsstring

record ticket =
  ticketId :: string
  ticketData :: "cell list list"

record db =
  users :: "user list"
  tickets :: "ticket list"

datatype body =
    Message string
  | Errors "string list"
  | Token string
  | Tickets "ticket list"

record response =
  status :: nat
  payload :: body

section \<open>Registration (POST /register, src/app.js lines 42-75)\<close>

text \<open>
  The collaborators of the two account routes. \<^verbatim>\<open>isEmail\<close> and \<^verbatim>\<open>normalizeEmail\<close> belong
  to the validator library (the normalised address is taken as the database stores it).
  \<^verbatim>\<open>bcrypt.hash(password, 10)\<close> and \<^verbatim>\<open>bcrypt.compare\<close> on two strings give \<open>None\<close> when
  the promise is rejected. \<^verbatim>\<open>jwt.sign\<close> with the fixed key gives the token.
  \<^verbatim>\<open>User.findOne\<close> searches the collection unless \<open>users_find_ok\<close> says that it rejects,
  and \<^verbatim>\<open>User.create\<close> appends the document unless \<open>users_create_ok\<close> says that it rejects.
\<close>

record auth_env =
  lib_isEmail :: "jsstring \<Rightarrow> bool"
  lib_normalizeEmail :: "jsstring \<Rightarrow> jsstring"
  lib_hash :: "jsstring \<Rightarrow> jsstring option"
  lib_compare :: "jsstring \<Rightarrow> jsstring \<Rightarrow> bool option"
  lib_sign :: "jsstring \<Rightarrow> string"
  users_find_ok :: "user list \<Rightarrow> bool"
  users_create_ok :: "user list \<Rightarrow> user \<Rightarrow> bool"

text \<open>
  The \<^verbatim>\<open>trim\<close> sanitizer removes white space at both ends, where white space is what
  the regular expression \<^verbatim>\<open>\s\<close> matches: tab, line feed, vertical tab, form feed,
  carriage return, space, U+00A0, U+1680, U+2000 to U+200A, U+2028, U+2029, U+202F,
  U+205F, U+3000 and U+FEFF.
\<close>

definition is_space :: "code_unit \<Rightarrow> bool" where
  "is_space c =
     (c \<in> {0x0009, 0x000A, 0x000B, 0x000C, 0x000D, 0x0020, 0x00A0, 0x1680,
            0x2028, 0x2029, 0x202F, 0x205F, 0x3000, 0xFEFF}
      \<or> (0x2000 \<le> c \<and> c \<le> 0x200A))"

definition trim :: "jsstring \<Rightarrow> jsstring" where
  "trim s = rev (dropWhile is_space (rev (dropWhile is_space s)))"

text \<open>
  The length that \<^verbatim>\<open>isLength\<close> compares with its bounds: the number of code units, less
  the variation selectors U+FE0E and U+FE0F, less the surrogate pairs (the matches of
  \<^verbatim>\<open>/[\uD800-\uDBFF][\uDC00-\uDFFF]/g\<close>, found from left to right without overlap).
\<close>

definition presentationSequences :: "jsstring \<Rightarrow> nat" where
  "presentationSequences s = length (filter (\<lambda>c. c = 0xFE0F \<or> c = 0xFE0E) s)"

fun surrogatePairs :: "jsstring \<Rightarrow> nat" where
  "surrogatePairs (a # b # cs) =
     (if 0xD800 \<le> a \<and> a \<le> 0xDBFF \<and> 0xDC00 \<le> b \<and> b \<le> 0xDFFF
      then Suc (surrogatePairs cs)
      else surrogatePairs (b # cs))"
| "surrogatePairs cs = 0"

definition isLength_len :: "jsstring \<Rightarrow> int" where
  "isLength_len s = int (length s) - int (presentationSequences s) - int (surrogatePairs s)"

text \<open>
  The validation chains of the route, in their order. Each chain runs on its own field:
  \<^verbatim>\<open>username\<close> and \<^verbatim>\<open>name\<close> are trimmed and must then be non-empty, \<^verbatim>\<open>password\<close> must have
  a length of 6 or more, \<^verbatim>\<open>email\<close> must pass \<^verbatim>\<open>isEmail\<close>. The result lists the fields
  that failed.
\<close>

definition validationResult ::
  "(jsstring \<Rightarrow> bool) \<Rightarrow> jsstring \<Rightarrow> jsstring \<Rightarrow> jsstring \<Rightarrow> jsstring \<Rightarrow> string list" where
  "validationResult isEmail uname pw mail nm =
     (if trim uname = [] then [''username''] else []) @
     (if isLength_len pw < 6 then [''password''] else []) @
     (if \<not> isEmail mail then [''email''] else []) @
     (if trim nm = [] then [''name''] else [])"

text \<open>
  The handler. The sanitizers have rewritten the request body before it runs, so the
  \<^verbatim>\<open>username\<close> and \<^verbatim>\<open>name\<close> it reads are trimmed and the \<^verbatim>\<open>email\<close> is normalised. A
  rejected promise (of \<^verbatim>\<open>User.findOne\<close>, \<^verbatim>\<open>bcrypt.hash\<close> or \<^verbatim>\<open>User.create\<close>) goes through
  \<^verbatim>\<open>next(error)\<close> to the error handler (lines 220-223), which answers 500.
\<close>

definition register ::
  "auth_env \<Rightarrow> db \<Rightarrow> jsstring \<Rightarrow> jsstring \<Rightarrow> jsstring \<Rightarrow> jsstring \<Rightarrow> response \<times> db" where
  "register a d uname pw mail nm =
     (let errors = validationResult (lib_isEmail a) uname pw mail nm in
      if errors \<noteq> [] then (\<lparr>status = 400, payload = Errors errors\<rparr>, d)
      else
        (let uname' = trim uname; mail' = lib_normalizeEmail a mail; nm' = trim nm in
         if \<not> users_find_ok a (users d)
         then (\<lparr>status = 500, payload = Message ''An error occurred''\<rparr>, d)
         else
           (case find (\<lambda>u. username u = uname' \<or> email u = mail') (users d) of
              Some existingUser \<Rightarrow>
                (\<lparr>status = 400, payload = Message ''Username or email already exists''\<rparr>, d)
            | None \<Rightarrow>
                (case lib_hash a pw of
                   None \<Rightarrow> (\<lparr>status = 500, payload = Message ''An error occurred''\<rparr>, d)
                 | Some hashedPassword \<Rightarrow>
                     (let newUser = \<lparr>username = uname', password = hashedPassword,
                                      email = mail', name = nm'\<rparr>
                      in if users_create_ok a (users d) newUser
                         then (\<lparr>status = 200,
                                 payload = Message ''User registered successfully''\<rparr>,
                               d\<lparr>users := users d @ [newUser]\<rparr>)
                         else (\<lparr>status = 500, payload = Message ''An error occurred''\<rparr>,
                               d))))))"

section \<open>Login (POST /login, src/app.js lines 78-101)\<close>

text \<open>
  The \<^verbatim>\<open>password\<close> of the body is a string or is missing (\<open>None\<close>). \<^verbatim>\<open>bcrypt.compare\<close>
  rejects when its first argument is \<^verbatim>\<open>undefined\<close> (data and hash arguments required),
  and otherwise does what the library parameter says.
\<close>

definition bcrypt_compare ::
  "auth_env \<Rightarrow> jsstring option \<Rightarrow> jsstring \<Rightarrow> bool option" where
  "bcrypt_compare a data encrypted =
     (case data of
        None \<Rightarrow> None
      | Some pw \<Rightarrow> lib_compare a pw encrypted)"

text \<open>The handler; every rejected promise is caught and answered with a 500.\<close>

definition login :: "auth_env \<Rightarrow> db \<Rightarrow> jsstring \<Rightarrow> jsstring option \<Rightarrow> response" where
  "login a d uname pw =
     (if \<not> users_find_ok a (users d)
      then \<lparr>status = 500, payload = Message ''An error occurred''\<rparr>
      else
        (case find (\<lambda>u. username u = uname) (users d) of
           None \<Rightarrow> \<lparr>status = 401, payload = Message ''Invalid username or password''\<rparr>
         | Some u \<Rightarrow>
             (case bcrypt_compare a pw (password u) of
                None \<Rightarrow> \<lparr>status = 500, payload = Message ''An error occurred''\<rparr>
              | Some isPasswordValid \<Rightarrow>
                  if \<not> isPasswordValid
                  then \<lparr>status = 401, payload = Message ''Invalid username or password''\<rparr>
                  else \<lparr>status = 200, payload = Token (lib_sign a (username u))\<rparr>)))"

section \<open>Token check (verifyToken, src/app.js lines 104-118)\<close>

text \<open>\<^verbatim>\<open>String.prototype.split(' ')\<close>: the pieces between single spaces.\<close>

fun split_space :: "string \<Rightarrow> string list" where
  "split_space [] = [[]]"
| "split_space (c # cs) =
     (if c = CHR '' '' then [] # split_space cs
      else (case split_space cs of
              [] \<Rightarrow> [[c]]
            | p # ps \<Rightarrow> (c # p) # ps))"

text \<open>
  \<^verbatim>\<open>req.headers.authorization?.split(' ')[1]\<close>: nothing when the header is absent or has
  no second piece.
\<close>

definition header_token :: "string option \<Rightarrow> string option" where
  "header_token authorization =
     (case authorization of
        None \<Rightarrow> None
      | Some h \<Rightarrow> (case split_space h of p # t # _ \<Rightarrow> Some t | _ \<Rightarrow> None))"

text \<open>
  The middleware answers itself (\<open>Inl\<close>) or calls \<^verbatim>\<open>next()\<close> with the decoded user name
  (\<open>Inr\<close>). \<^verbatim>\<open>jwt.verify\<close> with the fixed key is the parameter \<open>jwt_verify\<close>: \<open>None\<close> when it
  reports an error, the \<^verbatim>\<open>username\<close> of the payload otherwise. An empty token is falsy.
\<close>

definition verifyToken ::
  "(string \<Rightarrow> string option) \<Rightarrow> string option \<Rightarrow> response + string" where
  "verifyToken jwt_verify authorization =
     (case header_token authorization of
        None \<Rightarrow> Inl \<lparr>status = 401, payload = Message ''Access denied. No token provided''\<rparr>
      | Some token \<Rightarrow>
          if token = []
          then Inl \<lparr>status = 401, payload = Message ''Access denied. No token provided''\<rparr>
          else (case jwt_verify token of
                  None \<Rightarrow> Inl \<lparr>status = 401, payload = Message ''Invalid token''\<rparr>
                | Some decoded \<Rightarrow> Inr decoded))"

section \<open>Ticket creation (POST /tickets, src/app.js lines 141-162)\<close>

text \<open>
  \<^verbatim>\<open>numTickets\<close> is whatever JSON value the body holds, or \<^verbatim>\<open>undefined\<close>. An array or
  object is given by the string its conversion to a primitive yields. The loop test
  \<^verbatim>\<open>i < numTickets\<close> converts \<^verbatim>\<open>numTickets\<close> to a number; the conversion of a string is
  the parameter \<open>str_to_number\<close>.
\<close>

datatype jsnum = NaN | Finite rat | PosInf | NegInf

datatype jsvalue =
    JUndefined
  | JNull
  | JBool bool
  | JNumber jsnum
  | JString string
  | JObject string

fun to_number :: "(string \<Rightarrow> jsnum) \<Rightarrow> jsvalue \<Rightarrow> jsnum" where
  "to_number str_to_number JUndefined = NaN"
| "to_number str_to_number JNull = Finite 0"
| "to_number str_to_number (JBool b) = Finite (if b then 1 else 0)"
| "to_number str_to_number (JNumber x) = x"
| "to_number str_to_number (JString s) = str_to_number s"
| "to_number str_to_number (JObject s) = str_to_number s"

text \<open>
  The collaborators of the two ticket routes: the random source, the clock (the \<open>c\<close>-th
  call of \<^verbatim>\<open>Date.now()\<close> returns \<open>date_now e c\<close>), \<^verbatim>\<open>jwt.verify\<close>, the string conversion, and
  the database. \<^verbatim>\<open>Ticket.create\<close> appends the document unless \<open>create_ok\<close> says that it
  rejects; \<^verbatim>\<open>Ticket.find(...).skip(...).limit(...)\<close> is \<open>find_page\<close>, \<open>None\<close> when it rejects.
\<close>

record env =
  math_random :: random_source
  date_now :: "nat \<Rightarrow> int"
  jwt_verify :: "string \<Rightarrow> string option"
  str_to_number :: "string \<Rightarrow> jsnum"
  create_ok :: "ticket list \<Rightarrow> ticket \<Rightarrow> bool"
  find_page :: "ticket list \<Rightarrow> string \<Rightarrow> string option \<Rightarrow> string option \<Rightarrow> ticket list option"

text \<open>
  The loop \<^verbatim>\<open>for (let i = 0; i < numTickets; i++)\<close> for a finite bound \<open>q\<close>. Its state is
  the numbers of calls made to \<^verbatim>\<open>Math.random\<close> and \<^verbatim>\<open>Date.now\<close>, the collection, and
  the array \<^verbatim>\<open>tickets\<close>. \<open>Inl\<close> is the collection when \<^verbatim>\<open>Ticket.create\<close> rejected.
\<close>

function tickets_loop ::
  "env \<Rightarrow> rat \<Rightarrow> nat \<Rightarrow> nat \<times> nat \<times> ticket list \<times> ticket list
     \<Rightarrow> ticket list + ticket list \<times> ticket list" where
  "tickets_loop e q i (k, c, stored, acc) =
     (if of_nat i < q then
        (let (newTicket, k') = generateTicket (math_random e) k;
             newId = generateUniqueTicketId (date_now e c) (math_random e k');
             t = \<lparr>ticketId = newId, ticketData = newTicket\<rparr>
         in if create_ok e stored t
            then tickets_loop e q (Suc i) (Suc k', Suc c, stored @ [t], acc @ [t])
            else Inl stored)
      else Inr (stored, acc))"
  by pat_completeness auto
termination
proof (relation "measure (\<lambda>(e, q, i, s). nat \<lceil>q\<rceil> - i)")
  show "wf (measure (\<lambda>(e, q, i, s). nat \<lceil>q\<rceil> - i))" by simp
next
  fix e :: env and q :: rat and i k c :: nat and stored acc :: "ticket list"
    and x xa y xb xc
  assume "of_nat i < q"
  then have "int i < \<lceil>q\<rceil>" by (simp add: less_ceiling_iff)
  then show "((e, q, Suc i, Suc y, Suc c, stored @ [xc], acc @ [xc]), e, q, i, k, c, stored, acc)
      \<in> measure (\<lambda>(e, q, i, s). nat \<lceil>q\<rceil> - i)"
    by simp
qed

declare tickets_loop.simps [simp del]

text \<open>
  The route: the middleware first, then the handler. The result is \<open>None\<close> when the
  handler never answers: for a bound of \<open>+\<infinity>\<close> the loop test holds for every \<open>i\<close>.
  \<open>k\<close> and \<open>c\<close> are the calls made to \<^verbatim>\<open>Math.random\<close> and \<^verbatim>\<open>Date.now\<close> before.
\<close>

definition post_tickets ::
  "env \<Rightarrow> nat \<Rightarrow> nat \<Rightarrow> string option \<Rightarrow> jsvalue \<Rightarrow> db \<Rightarrow> (response \<times> db) option" where
  "post_tickets e k c authorization numTickets d =
     (case verifyToken (jwt_verify e) authorization of
        Inl denied \<Rightarrow> Some (denied, d)
      | Inr user_name \<Rightarrow>
          (case to_number (str_to_number e) numTickets of
             NaN \<Rightarrow> Some (\<lparr>status = 200, payload = Tickets []\<rparr>, d)
           | NegInf \<Rightarrow> Some (\<lparr>status = 200, payload = Tickets []\<rparr>, d)
           | PosInf \<Rightarrow> None
           | Finite q \<Rightarrow>
               (case tickets_loop e q 0 (k, c, tickets d, []) of
                  Inl stored \<Rightarrow>
                    Some (\<lparr>status = 500, payload = Message ''An error occurred''\<rparr>,
                          d\<lparr>tickets := stored\<rparr>)
                | Inr (stored, acc) \<Rightarrow>
                    Some (\<lparr>status = 200, payload = Tickets acc\<rparr>, d\<lparr>tickets := stored\<rparr>))))"

section \<open>Ticket lookup (GET /tickets/:id, src/app.js lines 174-188)\<close>

definition get_tickets ::
  "env \<Rightarrow> string option \<Rightarrow> string \<Rightarrow> string option \<Rightarrow> string option \<Rightarrow> db \<Rightarrow> response \<times> db"
where
  "get_tickets e authorization ident page limit d =
     (case verifyToken (jwt_verify e) authorization of
        Inl denied \<Rightarrow> (denied, d)
      | Inr user_name \<Rightarrow>
          (case find_page e (tickets d) ident page limit of
             None \<Rightarrow> (\<lparr>status = 500, payload = Message ''An error occurred''\<rparr>, d)
           | Some found \<Rightarrow> (\<lparr>status = 200, payload = Tickets found\<rparr>, d)))"

section \<open>Sample collaborators\<close>

text \<open>
  Stand-ins for the library functions, used to run the routes on concrete requests:
  an address is taken as valid when it contains \<^verbatim>\<open>@\<close>, normalising leaves it as it is,
  the hash of a password is the password after \<^verbatim>\<open>h:\<close>, every user name is signed as
  \<^verbatim>\<open>good\<close>, the only token that verifies is \<^verbatim>\<open>good\<close> (for the user \<^verbatim>\<open>alice\<close>), no string
  converts to a number, the database never rejects, and the clock always shows
  1700000000000.
\<close>

definition sample_isEmail :: "jsstring \<Rightarrow> bool" where
  "sample_isEmail s = (0x0040 \<in> set s)"

definition sample_normalizeEmail :: "jsstring \<Rightarrow> jsstring" where
  "sample_normalizeEmail s = s"

definition sample_hash :: "jsstring \<Rightarrow> jsstring option" where
  "sample_hash pw = Some (js ''h:'' @ pw)"

definition sample_compare :: "jsstring \<Rightarrow> jsstring \<Rightarrow> bool option" where
  "sample_compare pw hashed = Some (hashed = js ''h:'' @ pw)"

definition sample_sign :: "jsstring \<Rightarrow> string" where
  "sample_sign uname = ''good''"

definition sample_users_find_ok :: "user list \<Rightarrow> bool" where
  "sample_users_find_ok stored = True"

definition sample_users_create_ok :: "user list \<Rightarrow> user \<Rightarrow> bool" where
  "sample_users_create_ok stored u = True"

definition sample_auth :: auth_env where
  "sample_auth =
     \<lparr>lib_isEmail = sample_isEmail, lib_normalizeEmail = sample_normalizeEmail,
      lib_hash = sample_hash, lib_compare = sample_compare, lib_sign = sample_sign,
      users_find_ok = sample_users_find_ok, users_create_ok = sample_users_create_ok\<rparr>"

text \<open>The same collaborators with a database whose lookups are rejected.\<close>

definition sample_users_find_reject :: "user list \<Rightarrow> bool" where
  "sample_users_find_reject stored = False"

definition rejecting_auth :: auth_env where
  "rejecting_auth =
     \<lparr>lib_isEmail = sample_isEmail, lib_normalizeEmail = sample_normalizeEmail,
      lib_hash = sample_hash, lib_compare = sample_compare, lib_sign = sample_sign,
      users_find_ok = sample_users_find_reject, users_create_ok = sample_users_create_ok\<rparr>"

definition sample_verify :: "string \<Rightarrow> string option" where
  "sample_verify token = (if token = ''good'' then Some ''alice'' else None)"

definition sample_str_to_number :: "string \<Rightarrow> jsnum" where
  "sample_str_to_number s = NaN"

definition sample_create_ok :: "ticket list \<Rightarrow> ticket \<Rightarrow> bool" where
  "sample_create_ok stored t = True"

definition sample_find_page ::
  "ticket list \<Rightarrow> string \<Rightarrow> string option \<Rightarrow> string option \<Rightarrow> ticket list option" where
  "sample_find_page stored ident page limit = Some (filter (\<lambda>t. ticketId t = ident) stored)"

definition sample_clock :: "nat \<Rightarrow> int" where
  "sample_clock c = 1700000000000"

definition sample_env :: env where
  "sample_env =
     \<lparr>math_random = always_first, date_now = sample_clock, jwt_verify = sample_verify,
      str_to_number = sample_str_to_number, create_ok = sample_create_ok,
      find_page = sample_find_page\<rparr>"

text \<open>The same collaborators with a database that rejects every insertion.\<close>

definition sample_create_reject :: "ticket list \<Rightarrow> ticket \<Rightarrow> bool" where
  "sample_create_reject stored t = False"

definition rejecting_env :: env where
  "rejecting_env =
     \<lparr>math_random = always_first, date_now = sample_clock, jwt_verify = sample_verify,
      str_to_number = sample_str_to_number, create_ok = sample_create_reject,
      find_page = sample_find_page\<rparr>"

definition alice :: user where
  "alice = \<lparr>username = js ''alice'', password = js ''h:secret1'',
             email = js ''a@x.com'', name = js ''Alice''\<rparr>"

definition empty_db :: db where
  "empty_db = \<lparr>users = [], tickets = []\<rparr>"

definition alice_db :: db where
  "alice_db = \<lparr>users = [alice], tickets = []\<rparr>"

section \<open>Properties of the generator\<close>

lemma init_columns_eq:
  "init_columns =
     [[1..<11], [11..<21], [21..<31], [31..<41], [41..<51],
      [51..<61], [61..<71], [71..<81], [81..<91]]"
  by code_simp

lemma cell_numbers_append: "cell_numbers (xs @ ys) = cell_numbers xs @ cell_numbers ys"
  by (induction xs rule: cell_numbers.induct) auto

lemma fold_upt_invariant:
  assumes "P 0 s" and "\<And>j t. j < n \<Longrightarrow> P j t \<Longrightarrow> P (Suc j) (f j t)"
  shows "P n (fold f [0..<n] s)"
  using assms by (induction n) auto

lemma splice1_parts:
  "splice1 i xs = (removed, rest) \<Longrightarrow>
     \<exists>n. removed = take 1 (drop n xs) \<and> rest = take n xs @ drop (Suc n) xs"
  by (auto simp: splice1_def Let_def)

lemma take1_drop_split: "take 1 (drop n xs) @ drop (Suc n) xs = drop n xs"
proof -
  have "drop (Suc n) xs = drop 1 (drop n xs)" by simp
  then show ?thesis by (metis append_take_drop_id)
qed

lemma splice1_mset:
  assumes "splice1 i xs = (removed, rest)"
  shows "mset removed + mset rest = mset xs"
proof -
  obtain n where r: "removed = take 1 (drop n xs)" and s: "rest = take n xs @ drop (Suc n) xs"
    using splice1_parts [OF assms] by blast
  have "mset xs = mset (take n xs) + mset (drop n xs)"
    by (metis append_take_drop_id mset_append)
  also have "mset (drop n xs) = mset (take 1 (drop n xs)) + mset (drop (Suc n) xs)"
    by (metis take1_drop_split mset_append)
  finally show ?thesis using r s by simp
qed

lemma splice1_set:
  assumes "splice1 i xs = (removed, rest)"
  shows "set removed \<subseteq> set xs" and "set rest \<subseteq> set xs"
  using splice1_mset [OF assms] by (metis mset_subset_eq_add_left set_mset_mono set_mset_mset,
      metis mset_subset_eq_add_right set_mset_mono set_mset_mset)

lemma splice1_in_range:
  assumes "splice1 i xs = (removed, rest)" and "0 \<le> i" and "i < int (length xs)"
  shows "removed = [xs ! nat i]" and "length rest = length xs - 1"
proof -
  have n: "nat i < length xs" using assms by linarith
  have r: "removed = take 1 (drop (nat i) xs)" and s: "rest = take (nat i) xs @ drop (Suc (nat i)) xs"
    using assms by (simp_all add: splice1_def Let_def min_def)
  from n have "drop (nat i) xs = xs ! nat i # drop (Suc (nat i)) xs"
    by (simp add: Cons_nth_drop_Suc)
  then show "removed = [xs ! nat i]" using r by simp
  show "length rest = length xs - 1" using s n by simp
qed

lemma mset_concat_update:
  "j < length cols \<Longrightarrow> mset (concat (cols[j := ys])) + mset (cols ! j) = mset (concat cols) + mset ys"
proof (induction cols arbitrary: j)
  case Nil
  then show ?case by simp
next
  case (Cons c cols)
  show ?case
  proof (cases j)
    case 0
    then show ?thesis by (simp add: union_commute union_lcomm)
  next
    case (Suc i)
    with Cons.prems have "i < length cols" by simp
    from Cons.IH [OF this]
    have "mset c + (mset (concat (cols[i := ys])) + mset (cols ! i)) = mset c + (mset (concat cols) + mset ys)"
      by simp
    with Suc show ?thesis by (simp add: union_assoc)
  qed
qed

lemma draw_cell_cases:
  assumes "draw_cell rnd j (cols, k, row) = (cols', k', row')"
  obtains (blank) "cols ! j = []" "cols' = cols" "k' = k" "row' = row @ [X]"
  | (drawn) removed rest where "cols ! j \<noteq> []"
      "splice1 \<lfloor>rnd k * of_nat (length (cols ! j))\<rfloor> (cols ! j) = (removed, rest)"
      "cols' = cols[j := rest]" "k' = Suc k"
      "row' = row @ [case removed of [] \<Rightarrow> Undefined | n # _ \<Rightarrow> Number n]"
proof (cases "cols ! j = []")
  case True
  have "cols' = cols" "k' = k" "row' = row @ [X]"
    using assms True by simp_all
  with True show ?thesis by (rule blank)
next
  case False
  obtain removed rest
    where sp: "splice1 \<lfloor>rnd k * of_nat (length (cols ! j))\<rfloor> (cols ! j) = (removed, rest)"
    by (cases "splice1 \<lfloor>rnd k * of_nat (length (cols ! j))\<rfloor> (cols ! j)")
  have "cols' = cols[j := rest]" "k' = Suc k"
    "row' = row @ [case removed of [] \<Rightarrow> Undefined | n # _ \<Rightarrow> Number n]"
    using assms False sp by (simp_all add: Let_def)
  with False sp show ?thesis by (rule drawn)
qed

lemma draw_cell_length:
  assumes "draw_cell rnd j (cols, k, row) = (cols', k', row')"
  shows "length cols' = length cols" and "length row' = Suc (length row)"
  using assms by (cases rule: draw_cell_cases; simp)+

lemma removed_numbers:
  assumes "splice1 i xs = (removed, rest)"
  shows "cell_numbers [case removed of [] \<Rightarrow> Undefined | n # _ \<Rightarrow> Number n] = removed"
proof -
  obtain n where "removed = take 1 (drop n xs)" using splice1_parts [OF assms] by blast
  then show ?thesis by (cases "drop n xs") auto
qed

lemma draw_cell_mset:
  assumes "draw_cell rnd j (cols, k, row) = (cols', k', row')" and "j < length cols"
  shows "mset (concat cols') + mset (cell_numbers row') = mset (concat cols) + mset (cell_numbers row)"
  using assms(1)
proof (cases rule: draw_cell_cases)
  case blank
  then show ?thesis by (simp add: cell_numbers_append)
next
  case (drawn removed rest)
  have a: "mset (concat cols') + mset (cols ! j) = mset (concat cols) + mset rest"
    using drawn(3) mset_concat_update [OF assms(2)] by simp
  have b: "mset removed + mset rest = mset (cols ! j)"
    using splice1_mset [OF drawn(2)] .
  have c: "mset (cell_numbers row') = mset (cell_numbers row) + mset removed"
    using drawn(5) removed_numbers [OF drawn(2)] by (simp add: cell_numbers_append)
  from a b have "(mset (concat cols') + mset removed) + mset rest = mset (concat cols) + mset rest"
    by (simp add: union_assoc)
  then have "mset (concat cols') + mset removed = mset (concat cols)"
    by simp
  then have "mset (concat cols) + mset (cell_numbers row)
      = mset (concat cols') + (mset (cell_numbers row) + mset removed)"
    by (simp add: union_assoc union_commute)
  with c show ?thesis by simp
qed

lemma fill_row_invariant:
  assumes "P 0 (cols, k, [])"
    and "\<And>j c k r c' k' r'. j < 9 \<Longrightarrow> P j (c, k, r) \<Longrightarrow>
           draw_cell rnd j (c, k, r) = (c', k', r') \<Longrightarrow> P (Suc j) (c', k', r')"
  shows "P 9 (fill_row rnd (cols, k))"
  unfolding fill_row_def fst_conv snd_conv
proof (rule fold_upt_invariant [where P = P and n = 9 and f = "draw_cell rnd"])
  show "P 0 (cols, k, [])" by fact
next
  fix j t assume j: "j < 9" and p: "P j t"
  obtain c k r where t: "t = (c, k, r)" by (cases t)
  obtain c' k' r' where d: "draw_cell rnd j (c, k, r) = (c', k', r')"
    by (cases "draw_cell rnd j (c, k, r)")
  from assms(2) [OF j p [unfolded t] d] have "P (Suc j) (c', k', r')" .
  then show "P (Suc j) (draw_cell rnd j t)"
    by (simp only: t d)
qed

lemma fill_row_mset:
  assumes "fill_row rnd (cols, k) = (cols', k', row)" and "length cols = 9"
  shows "length cols' = 9" and "length row = 9"
    and "mset (concat cols') + mset (cell_numbers row) = mset (concat cols)"
proof -
  let ?P = "\<lambda>j (t :: nat list list \<times> nat \<times> cell list). length (fst t) = 9 \<and> length (snd (snd t)) = j \<and>
     mset (concat (fst t)) + mset (cell_numbers (snd (snd t))) = mset (concat cols)"
  have "?P 9 (fill_row rnd (cols, k))"
  proof (rule fill_row_invariant [where P = ?P])
    show "?P 0 (cols, k, [])" using assms(2) by simp
  next
    fix j c k r c' k' r'
    assume j: "j < 9" and p: "?P j (c, k, r)" and d: "draw_cell rnd j (c, k, r) = (c', k', r')"
    from p j have "j < length c" by simp
    from draw_cell_mset [OF d this] draw_cell_length [OF d] p
    show "?P (Suc j) (c', k', r')" by simp
  qed
  then show "length cols' = 9" and "length row = 9"
    and "mset (concat cols') + mset (cell_numbers row) = mset (concat cols)"
    using assms(1) by simp_all
qed

lemma rows_invariant:
  assumes "P 0 (cols, k, [])"
    and "\<And>i c k g c' k' row. i < 3 \<Longrightarrow> P i (c, k, g) \<Longrightarrow>
           fill_row rnd (c, k) = (c', k', row) \<Longrightarrow> P (Suc i) (c', k', g @ [row])"
  shows "P 3 (fold (push_row rnd) [0..<3] (cols, k, []))"
proof (rule fold_upt_invariant)
  show "P 0 (cols, k, [])" by fact
next
  fix i t assume i: "i < 3" and p: "P i t"
  obtain c k g where t: "t = (c, k, g)" by (cases t)
  obtain c' k' row where d: "fill_row rnd (c, k) = (c', k', row)"
    by (cases "fill_row rnd (c, k)")
  from assms(2) [OF i p [unfolded t] d] show "P (Suc i) (push_row rnd i t)"
    unfolding t by (simp add: d)
qed

lemma generateTicket_mset:
  "length (fst (generateTicket rnd k)) = 3 \<and>
   (\<forall>row \<in> set (fst (generateTicket rnd k)). length row = 9) \<and>
   mset (cell_numbers (concat (fst (generateTicket rnd k)))) \<subseteq># mset (concat init_columns)"
proof -
  let ?P = "\<lambda>i (t :: nat list list \<times> nat \<times> cell list list). length (fst t) = 9 \<and>
     length (snd (snd t)) = i \<and> (\<forall>row \<in> set (snd (snd t)). length row = 9) \<and>
     mset (concat (fst t)) + mset (cell_numbers (concat (snd (snd t)))) = mset (concat init_columns)"
  have "?P 3 (fold (push_row rnd) [0..<3] (init_columns, k, []))"
  proof (rule rows_invariant [where P = ?P])
    show "?P 0 (init_columns, k, [])" by (simp add: init_columns_eq)
  next
    fix i c k g c' k' row
    assume p: "?P i (c, k, g)" and d: "fill_row rnd (c, k) = (c', k', row)"
    from p have "length c = 9" by simp
    from fill_row_mset [OF d this]
    have l: "length c' = 9" "length row = 9"
      and m: "mset (concat c') + mset (cell_numbers row) = mset (concat c)" .
    have "mset (concat c') + (mset (cell_numbers (concat g)) + mset (cell_numbers row))
        = (mset (concat c') + mset (cell_numbers row)) + mset (cell_numbers (concat g))"
      by (simp add: union_assoc union_commute)
    with m p have "mset (concat c') + mset (cell_numbers (concat (g @ [row])))
        = mset (concat init_columns)"
      by (simp add: cell_numbers_append)
    with l p show "?P (Suc i) (c', k', g @ [row])"
      by simp
  qed
  moreover obtain c k' g where "fold (push_row rnd) [0..<3] (init_columns, k, []) = (c, k', g)"
    by (cases "fold (push_row rnd) [0..<3] (init_columns, k, [])")
  ultimately show ?thesis
    by (simp add: generateTicket_def) (metis mset_subset_eq_add_right)
qed

lemma distinct_init_columns: "distinct (concat init_columns)"
  by (simp add: init_columns_eq)

lemma generateTicket_rows:
  obtains r0 r1 r2 where "fst (generateTicket rnd k) = [r0, r1, r2]"
    "length r0 = 9" "length r1 = 9" "length r2 = 9"
proof -
  let ?g = "fst (generateTicket rnd k)"
  have l: "length ?g = 3" and r: "\<forall>row \<in> set ?g. length row = 9"
    using generateTicket_mset [of rnd k] by simp_all
  from l obtain r0 r1 r2 where g: "?g = [r0, r1, r2]"
    by (auto simp: numeral_3_eq_3 length_Suc_conv)
  with r that show ?thesis by simp
qed

lemma distinct_sub_mset:
  assumes "mset xs \<subseteq># mset ys" and "distinct ys"
  shows "distinct xs"
  unfolding distinct_count_atmost_1
proof
  fix a
  have le1: "count (mset xs) a \<le> count (mset ys) a"
    using assms(1) by (rule mset_subset_eq_count)
  have le2: "count (mset ys) a \<le> 1"
    using assms(2) by (simp add: distinct_count_atmost_1)
  show "count (mset xs) a = (if a \<in> set xs then 1 else 0)"
  proof (cases "a \<in> set xs")
    case True
    then have "0 < count (mset xs) a" by simp
    with le1 le2 have "count (mset xs) a = 1" by linarith
    with True show ?thesis by simp
  next
    case False
    then show ?thesis by (simp add: count_eq_zero_iff)
  qed
qed

lemma distinct_cell_numbers: "distinct (cell_numbers (concat (fst (generateTicket rnd k))))"
proof -
  have "mset (cell_numbers (concat (fst (generateTicket rnd k)))) \<subseteq># mset (concat init_columns)"
    using generateTicket_mset [of rnd k] by simp
  then show ?thesis using distinct_init_columns by (rule distinct_sub_mset)
qed

lemma cell_numbers_member: "p < length xs \<Longrightarrow> xs ! p = Number n \<Longrightarrow> n \<in> set (cell_numbers xs)"
proof (induction xs arbitrary: p rule: cell_numbers.induct)
  case 1
  then show ?case by simp
next
  case (2 m cs)
  then show ?case by (cases p) auto
next
  case (3 cs)
  then show ?case by (cases p) auto
next
  case (4 cs)
  then show ?case by (cases p) auto
qed

lemma distinct_cell_numbers_nth:
  "distinct (cell_numbers xs) \<Longrightarrow> p < length xs \<Longrightarrow> q < length xs \<Longrightarrow>
     xs ! p = Number n \<Longrightarrow> xs ! q = Number n \<Longrightarrow> p = q"
proof (induction xs arbitrary: p q rule: cell_numbers.induct)
  case 1
  then show ?case by simp
next
  case (2 m cs)
  show ?case
  proof (cases p; cases q)
    fix p' q' assume "p = Suc p'" "q = Suc q'"
    with 2 show ?thesis by auto
  next
    fix q' assume "p = 0" "q = Suc q'"
    with 2 cell_numbers_member [of q' cs n] show ?thesis by auto
  next
    fix p' assume "p = Suc p'" "q = 0"
    with 2 cell_numbers_member [of p' cs n] show ?thesis by auto
  qed simp
next
  case (3 cs)
  then show ?case by (cases p; cases q) auto
next
  case (4 cs)
  then show ?case by (cases p; cases q) auto
qed

lemma grid_nth_concat:
  assumes "length r0 = 9" "length r1 = 9" "length r2 = 9" "i < 3" "j < 9"
  shows "[r0, r1, r2] ! i ! j = concat [r0, r1, r2] ! (9 * i + j)"
proof -
  from \<open>i < 3\<close> consider "i = 0" | "i = 1" | "i = 2" by linarith
  then show ?thesis
    using assms by cases (simp_all add: nth_append)
qed

lemma pools_in_range_init: "pools_in_range init_columns"
  unfolding pools_in_range_def in_column_range_def
proof (intro allI impI ballI)
  fix j n assume "j < length init_columns" and n: "n \<in> set (init_columns ! j)"
  then have "j < 9" by (simp add: init_columns_eq)
  then consider "j = 0" | "j = 1" | "j = 2" | "j = 3" | "j = 4" | "j = 5" | "j = 6" | "j = 7" | "j = 8"
    by linarith
  then show "10 * j + 1 \<le> n \<and> n \<le> 10 * j + 10"
    using n by cases (simp_all add: init_columns_eq del: upt_rec_numeral)
qed

lemma draw_cell_range:
  assumes d: "draw_cell rnd j (cols, k, row) = (cols', k', row')"
    and j: "j < length cols" and l: "length row = j"
    and p: "pools_in_range cols" and r: "row_in_range row"
  shows "pools_in_range cols'" and "row_in_range row'"
proof -
  show "pools_in_range cols'"
    using d
  proof (cases rule: draw_cell_cases)
    case blank
    then show ?thesis using p by simp
  next
    case (drawn removed rest)
    have "set rest \<subseteq> set (cols ! j)" using splice1_set(2) [OF drawn(2)] .
    then show ?thesis
      using p j unfolding pools_in_range_def drawn(3)
      by (auto simp: nth_list_update)
  qed
  show "row_in_range row'"
    using d
  proof (cases rule: draw_cell_cases)
    case blank
    then show ?thesis using r l unfolding row_in_range_def
      by (auto simp: nth_append less_Suc_eq)
  next
    case (drawn removed rest)
    have s: "set removed \<subseteq> set (cols ! j)" using splice1_set(1) [OF drawn(2)] .
    have "\<And>n. (case removed of [] \<Rightarrow> Undefined | n # _ \<Rightarrow> Number n) = Number n \<Longrightarrow> in_column_range j n"
    proof -
      fix n assume "(case removed of [] \<Rightarrow> Undefined | n # _ \<Rightarrow> Number n) = Number n"
      then have "n \<in> set removed" by (cases removed) auto
      with s have "n \<in> set (cols ! j)" by blast
      with p j show "in_column_range j n" unfolding pools_in_range_def by blast
    qed
    then show ?thesis using r l unfolding row_in_range_def drawn(5)
      by (auto simp: nth_append less_Suc_eq)
  qed
qed

lemma fill_row_range:
  assumes "fill_row rnd (cols, k) = (cols', k', row)" and "length cols = 9"
    and "pools_in_range cols"
  shows "pools_in_range cols'" and "row_in_range row"
proof -
  let ?P = "\<lambda>j (t :: nat list list \<times> nat \<times> cell list). length (fst t) = 9 \<and>
     length (snd (snd t)) = j \<and> pools_in_range (fst t) \<and> row_in_range (snd (snd t))"
  have "?P 9 (fill_row rnd (cols, k))"
  proof (rule fill_row_invariant [where P = ?P])
    show "?P 0 (cols, k, [])" using assms(2,3) by (simp add: row_in_range_def)
  next
    fix j c k r c' k' r'
    assume j: "j < 9" and p: "?P j (c, k, r)" and d: "draw_cell rnd j (c, k, r) = (c', k', r')"
    from p j have jl: "j < length c" and l: "length r = j"
      and pr: "pools_in_range c" and rr: "row_in_range r" by simp_all
    from draw_cell_range [OF d jl l pr rr] draw_cell_length [OF d] p
    show "?P (Suc j) (c', k', r')" by simp
  qed
  then show "pools_in_range cols'" and "row_in_range row"
    using assms(1) by simp_all
qed

lemma generateTicket_rows_in_range:
  "\<forall>row \<in> set (fst (generateTicket rnd k)). row_in_range row"
proof -
  let ?P = "\<lambda>i (t :: nat list list \<times> nat \<times> cell list list). length (fst t) = 9 \<and>
     pools_in_range (fst t) \<and> (\<forall>row \<in> set (snd (snd t)). row_in_range row)"
  have "?P 3 (fold (push_row rnd) [0..<3] (init_columns, k, []))"
  proof (rule rows_invariant [where P = ?P])
    show "?P 0 (init_columns, k, [])" using pools_in_range_init by (simp add: init_columns_eq)
  next
    fix i c k g c' k' row
    assume p: "?P i (c, k, g)" and d: "fill_row rnd (c, k) = (c', k', row)"
    from p have l: "length c = 9" and pr: "pools_in_range c" by simp_all
    from fill_row_range [OF d l pr] fill_row_mset(1) [OF d l] p
    show "?P (Suc i) (c', k', g @ [row])" by simp
  qed
  moreover obtain c k' g where "fold (push_row rnd) [0..<3] (init_columns, k, []) = (c, k', g)"
    by (cases "fold (push_row rnd) [0..<3] (init_columns, k, [])")
  ultimately show ?thesis
    by (simp add: generateTicket_def)
qed

lemma floor_unit_mult:
  fixes u :: rat
  assumes "0 \<le> u" "u < 1" "0 < m"
  shows "0 \<le> \<lfloor>u * of_nat m\<rfloor>" and "\<lfloor>u * of_nat m\<rfloor> < int m"
proof -
  have "0 \<le> u * of_nat m" using assms by simp
  then show "0 \<le> \<lfloor>u * of_nat m\<rfloor>" by simp
  have "u * of_nat m < 1 * of_nat m"
    using assms by (intro mult_strict_right_mono) simp_all
  then have "u * of_nat m < of_int (int m)" by simp
  then show "\<lfloor>u * of_nat m\<rfloor> < int m" by (simp only: floor_less_iff)
qed

lemma draw_cell_sizes:
  assumes d: "draw_cell rnd j (cols, k, row) = (cols', k', row')"
    and u: "in_unit_interval rnd" and j: "j < length cols"
    and s: "length (cols ! j) = Suc m"
  shows "(\<exists>n. row' = row @ [Number n]) \<and> length (cols' ! j) = m
    \<and> (\<forall>i. i \<noteq> j \<longrightarrow> cols' ! i = cols ! i) \<and> k' = Suc k"
  using d
proof (cases rule: draw_cell_cases)
  case blank
  with s show ?thesis by simp
next
  case (drawn removed rest)
  let ?i = "\<lfloor>rnd k * of_nat (length (cols ! j))\<rfloor>"
  have "0 \<le> rnd k" "rnd k < 1" using u by (simp_all add: in_unit_interval_def)
  from floor_unit_mult [OF this, of "length (cols ! j)"] s
  have "0 \<le> ?i" "?i < int (length (cols ! j))" by simp_all
  from splice1_in_range [OF drawn(2) this]
  have r: "removed = [cols ! j ! nat ?i]" and l: "length rest = length (cols ! j) - 1" .
  have "\<exists>n. row' = row @ [Number n]" using drawn(5) r by simp
  moreover have "length (cols' ! j) = m" using drawn(3) l s j by simp
  moreover have "\<forall>i. i \<noteq> j \<longrightarrow> cols' ! i = cols ! i" using drawn(3) by simp
  ultimately show ?thesis using drawn(4) by simp
qed

lemma fill_row_sizes:
  assumes f: "fill_row rnd (cols, k) = (cols', k', row)" and u: "in_unit_interval rnd"
    and l: "length cols = 9" and s: "\<forall>j < 9. length (cols ! j) = Suc m"
  shows "\<forall>j < 9. length (cols' ! j) = m" and "list_all is_number row" and "k' = k + 9"
proof -
  let ?P = "\<lambda>j (t :: nat list list \<times> nat \<times> cell list). length (fst t) = 9 \<and>
     (\<forall>i < 9. length (fst t ! i) = (if i < j then m else Suc m)) \<and>
     list_all is_number (snd (snd t)) \<and> fst (snd t) = k + j"
  have "?P 9 (fill_row rnd (cols, k))"
  proof (rule fill_row_invariant [where P = ?P])
    show "?P 0 (cols, k, [])" using l s by simp
  next
    fix j c k0 r c' k' r'
    assume j: "j < 9" and p: "?P j (c, k0, r)" and d: "draw_cell rnd j (c, k0, r) = (c', k', r')"
    from p j have jl: "j < length c" and sj: "length (c ! j) = Suc m" by simp_all
    from draw_cell_sizes [OF d u jl sj]
    obtain n where r': "r' = r @ [Number n]" and a: "length (c' ! j) = m"
      and b: "\<forall>i. i \<noteq> j \<longrightarrow> c' ! i = c ! i" and k': "k' = Suc k0" by blast
    have "\<forall>i < 9. length (c' ! i) = (if i < Suc j then m else Suc m)"
    proof (intro allI impI)
      fix i :: nat assume "i < 9"
      show "length (c' ! i) = (if i < Suc j then m else Suc m)"
      proof (cases "i = j")
        case True
        then show ?thesis using a by simp
      next
        case False
        then show ?thesis using b p \<open>i < 9\<close> by (simp add: less_Suc_eq)
      qed
    qed
    with r' k' p draw_cell_length(1) [OF d]
    show "?P (Suc j) (c', k', r')" by simp
  qed
  then show "\<forall>j < 9. length (cols' ! j) = m" and "list_all is_number row" and "k' = k + 9"
    using f by simp_all
qed

lemma generateTicket_all_numbers:
  assumes "in_unit_interval rnd"
  shows "list_all (list_all is_number) (fst (generateTicket rnd k))"
    and "snd (generateTicket rnd k) = k + 27"
proof -
  let ?P = "\<lambda>i (t :: nat list list \<times> nat \<times> cell list list). length (fst t) = 9 \<and>
     (\<forall>j < 9. length (fst t ! j) = 10 - i) \<and>
     list_all (list_all is_number) (snd (snd t)) \<and> fst (snd t) = k + 9 * i"
  have "?P 3 (fold (push_row rnd) [0..<3] (init_columns, k, []))"
  proof (rule rows_invariant [where P = ?P])
    have "\<forall>j < 9. length (init_columns ! j) = 10"
    proof (intro allI impI)
      fix j :: nat assume "j < 9"
      then consider "j = 0" | "j = 1" | "j = 2" | "j = 3" | "j = 4" | "j = 5" | "j = 6" | "j = 7" | "j = 8"
        by linarith
      then show "length (init_columns ! j) = 10"
        by cases (simp_all add: init_columns_eq del: upt_rec_numeral)
    qed
    then show "?P 0 (init_columns, k, [])" by (simp add: init_columns_eq del: upt_rec_numeral)
  next
    fix i c k0 g c' k' row
    assume i: "i < 3" and p: "?P i (c, k0, g)" and d: "fill_row rnd (c, k0) = (c', k', row)"
    from p have l: "length c = 9" by simp
    from i have "10 - i = Suc (10 - Suc i)" by arith
    with p have s: "\<forall>j < 9. length (c ! j) = Suc (10 - Suc i)" by simp
    from fill_row_sizes [OF d assms l s] fill_row_mset(1) [OF d l] p
    show "?P (Suc i) (c', k', g @ [row])" by simp
  qed
  moreover obtain c k' g where "fold (push_row rnd) [0..<3] (init_columns, k, []) = (c, k', g)"
    by (cases "fold (push_row rnd) [0..<3] (init_columns, k, [])")
  ultimately show "list_all (list_all is_number) (fst (generateTicket rnd k))"
    and "snd (generateTicket rnd k) = k + 27"
    by (simp_all add: generateTicket_def)
qed

lemma init_columns_lengths: "map length init_columns = [10, 10, 10, 10, 10, 10, 10, 10, 10]"
  by (simp add: init_columns_eq del: upt_rec_numeral)
section \<open>Properties of the routes\<close>

lemmas id_eval = generateUniqueTicketId_def int_toString36_def digits36.simps random_part_def
  unit_toString36_def substr_def digit36_def frac_digits36.simps Let_def

lemma validationResult_empty:
  "validationResult isEmail uname pw mail nm = [] \<longleftrightarrow>
     \<not> (trim uname = [] \<or> isLength_len pw < 6 \<or> \<not> isEmail mail \<or> trim nm = [])"
  by (simp add: validationResult_def)

lemmas js_eval = js_def trim_def is_space_def isLength_len_def presentationSequences_def

lemma login_rejections_same:
  assumes "users_find_ok a (users d)"
    and "find (\<lambda>u. username u = unknown) (users d) = None"
    and "find (\<lambda>u. username u = known) (users d) = Some u"
    and "lib_compare a wrong (password u) = Some False"
  shows "login a d unknown pw = login a d known (Some wrong)
    \<and> login a d known (Some wrong)
        = \<lparr>status = 401, payload = Message ''Invalid username or password''\<rparr>"
  using assms by (simp add: login_def bcrypt_compare_def)

lemma validation_counts_characters:
  "trim [0x00A0] = [] \<and> isLength_len [0x00E9, 0x00E9, 0x00E9, 0x00E9, 0x00E9] = 5"
  by (simp add: js_eval)

lemma verifyToken_denied:
  assumes "authorization = None
     \<or> (\<forall>token. header_token authorization = Some token \<longrightarrow> jv token = None)"
  shows "\<exists>r. verifyToken jv authorization = Inl r \<and> status r = 401"
proof (cases "header_token authorization")
  case None
  then show ?thesis by (simp add: verifyToken_def)
next
  case (Some token)
  then have "authorization \<noteq> None" by (cases authorization) (simp_all add: header_token_def)
  with assms Some have "jv token = None" by simp
  with Some show ?thesis by (simp add: verifyToken_def)
qed

lemma loop_test_iff: "(of_nat i < (q :: rat)) \<longleftrightarrow> i < nat \<lceil>q\<rceil>"
proof -
  have "(of_nat i < q) \<longleftrightarrow> (of_int (int i) < q)" by simp
  also have "\<dots> \<longleftrightarrow> int i < \<lceil>q\<rceil>" by (simp only: less_ceiling_iff)
  also have "\<dots> \<longleftrightarrow> i < nat \<lceil>q\<rceil>" by linarith
  finally show ?thesis .
qed

lemma tickets_loop_all_created:
  assumes ok: "\<forall>stored t. create_ok e stored t"
  shows "nat \<lceil>q\<rceil> - i = n \<Longrightarrow>
    \<exists>ts. tickets_loop e q i (k, c, stored, acc) = Inr (stored @ ts, acc @ ts) \<and> length ts = n"
proof (induction n arbitrary: i k c stored acc)
  case 0
  then have "\<not> of_nat i < q" by (simp add: loop_test_iff)
  then have "tickets_loop e q i (k, c, stored, acc) = Inr (stored, acc)"
    by (simp add: tickets_loop.simps)
  then show ?case by simp
next
  case (Suc n)
  then have t: "of_nat i < q" by (simp add: loop_test_iff)
  obtain g k' where g: "generateTicket (math_random e) k = (g, k')"
    by (cases "generateTicket (math_random e) k")
  define t where "t = \<lparr>ticketId = generateUniqueTicketId (date_now e c) (math_random e k'),
    ticketData = g\<rparr>"
  have step: "tickets_loop e q i (k, c, stored, acc)
      = tickets_loop e q (Suc i) (Suc k', Suc c, stored @ [t], acc @ [t])"
    using t g ok by (subst tickets_loop.simps) (simp add: t_def Let_def)
  from Suc.prems have "nat \<lceil>q\<rceil> - Suc i = n" by simp
  from Suc.IH [OF this, of "Suc k'" "Suc c" "stored @ [t]" "acc @ [t]"]
  obtain ts where "tickets_loop e q (Suc i) (Suc k', Suc c, stored @ [t], acc @ [t])
      = Inr ((stored @ [t]) @ ts, (acc @ [t]) @ ts)" and "length ts = n"
    by blast
  with step have "tickets_loop e q i (k, c, stored, acc) = Inr (stored @ (t # ts), acc @ (t # ts))
      \<and> length (t # ts) = Suc n"
    by simp
  then show ?case by blast
qed

lemma sample_authorised: "verifyToken (jwt_verify sample_env) (Some ''Bearer good'') = Inr ''alice''"
  by (simp add: verifyToken_def header_token_def sample_env_def sample_verify_def)

lemma first_ticket_grid:
  "generateTicket always_first 0 =
     ([[Number 1, Number 11, Number 21, Number 31, Number 41, Number 51, Number 61, Number 71, Number 81],
       [Number 2, Number 12, Number 22, Number 32, Number 42, Number 52, Number 62, Number 72, Number 82],
       [Number 3, Number 13, Number 23, Number 33, Number 43, Number 53, Number 63, Number 73, Number 83]],
      27)"
  by code_simp

section \<open>The claims about the generator\<close>

text \<open>
  C5: every grid returned by \<open>generateTicket\<close> has exactly 3 rows, and every row has
  exactly 9 cells, whatever the random source returns and however many draws were made
  before.
\<close>

theorem generateTicket_three_by_nine:
  "length (fst (generateTicket rnd k)) = 3 \<and> map length (fst (generateTicket rnd k)) = [9, 9, 9]"
proof -
  obtain r0 r1 r2 where "fst (generateTicket rnd k) = [r0, r1, r2]"
    "length r0 = 9" "length r1 = 9" "length r2 = 9"
    by (rule generateTicket_rows)
  then show ?thesis by simp
qed

text \<open>
  C4: no numeric value appears in two different cells of a grid returned by
  \<open>generateTicket\<close>: two cells (row \<open>i\<close>, column \<open>j\<close>) and (row \<open>i'\<close>, column \<open>j'\<close>)
  that hold the same number are the same cell.
\<close>

theorem generateTicket_no_repeated_number:
  assumes "i < 3" "j < 9" "i' < 3" "j' < 9"
    and "fst (generateTicket rnd k) ! i ! j = Number n"
    and "fst (generateTicket rnd k) ! i' ! j' = Number n"
  shows "i = i' \<and> j = j'"
proof -
  obtain r0 r1 r2 where g: "fst (generateTicket rnd k) = [r0, r1, r2]"
    and l: "length r0 = 9" "length r1 = 9" "length r2 = 9"
    by (rule generateTicket_rows)
  let ?flat = "concat [r0, r1, r2]"
  have d: "distinct (cell_numbers ?flat)"
    using distinct_cell_numbers [of rnd k] g by simp
  have len: "length ?flat = 27" using l by simp
  have p: "?flat ! (9 * i + j) = Number n"
    using grid_nth_concat [OF l assms(1,2)] assms(5) g by simp
  have q: "?flat ! (9 * i' + j') = Number n"
    using grid_nth_concat [OF l assms(3,4)] assms(6) g by simp
  have "9 * i + j < length ?flat" "9 * i' + j' < length ?flat"
    using assms(1-4) len by linarith+
  from distinct_cell_numbers_nth [OF d this p q] have "9 * i + j = 9 * i' + j'" .
  with assms(2,4) show ?thesis by presburger
qed

theorem generateTicket_no_repeated_number_witness:
  "fst (generateTicket always_first 0) ! 0 ! 0 = Number 1
   \<and> fst (generateTicket always_first 0) ! 0 ! 0 = Number 1 \<and> (0::nat) < 3 \<and> (0::nat) < 9"
proof -
  have a: "fst (generateTicket always_first 0) ! 0 ! 0 = Number 1"
    by code_simp
  from generateTicket_no_repeated_number [of 0 0 0 0 always_first 0 1, OF _ _ _ _ a a] a
  show ?thesis by simp
qed

text \<open>
  C3: when the random source stays in \<open>[0, 1)\<close>, every one of the 27 cells of a grid
  returned by \<open>generateTicket\<close> is a number and the blank marker never occurs: each of
  the 9 pools starts with 10 numbers, and the grid takes 27 draws, 3 from each pool.
\<close>

theorem generateTicket_never_blank:
  assumes "in_unit_interval rnd"
  shows "map length init_columns = [10, 10, 10, 10, 10, 10, 10, 10, 10]
    \<and> snd (generateTicket rnd k) = k + 27
    \<and> length (concat (fst (generateTicket rnd k))) = 27
    \<and> list_all is_number (concat (fst (generateTicket rnd k)))
    \<and> X \<notin> set (concat (fst (generateTicket rnd k)))"
proof -
  obtain r0 r1 r2 where g: "fst (generateTicket rnd k) = [r0, r1, r2]"
    and l: "length r0 = 9" "length r1 = 9" "length r2 = 9"
    by (rule generateTicket_rows)
  from generateTicket_all_numbers [OF assms, of k]
  have a: "list_all (list_all is_number) (fst (generateTicket rnd k))"
    and d: "snd (generateTicket rnd k) = k + 27" .
  from a g have n: "list_all is_number (concat (fst (generateTicket rnd k)))"
    by simp
  have "X \<notin> set (concat (fst (generateTicket rnd k)))"
  proof
    assume "X \<in> set (concat (fst (generateTicket rnd k)))"
    with n have "is_number X" unfolding list_all_iff by blast
    then show False by simp
  qed
  with n d g l init_columns_lengths show ?thesis by simp
qed

theorem generateTicket_never_blank_witness:
  "in_unit_interval always_first
   \<and> snd (generateTicket always_first 0) = 27
   \<and> length (concat (fst (generateTicket always_first 0))) = 27
   \<and> list_all is_number (concat (fst (generateTicket always_first 0)))
   \<and> X \<notin> set (concat (fst (generateTicket always_first 0)))"
proof -
  have u: "in_unit_interval always_first"
    by (simp add: in_unit_interval_def always_first_def)
  from generateTicket_never_blank [OF u, of 0] u show ?thesis by simp
qed

text \<open>
  C2, as the code has it: a numeric cell in column \<open>j\<close> of a grid returned by
  \<open>generateTicket\<close> lies in \<open>10 j + 1 .. 10 j + 10\<close>, for every column \<open>0 \<le> j \<le> 8\<close>,
  and the pool of every column starts with 10 numbers. Column 0 therefore ranges over
  \<open>1 .. 10\<close>, not \<open>1 .. 9\<close>.
\<close>

theorem generateTicket_column_ranges:
  assumes "i < 3" and "j < 9" and "fst (generateTicket rnd k) ! i ! j = Number n"
  shows "10 * j + 1 \<le> n \<and> n \<le> 10 * j + 10 \<and> length (init_columns ! j) = 10"
proof -
  obtain r0 r1 r2 where g: "fst (generateTicket rnd k) = [r0, r1, r2]"
    and l: "length r0 = 9" "length r1 = 9" "length r2 = 9"
    by (rule generateTicket_rows)
  let ?row = "fst (generateTicket rnd k) ! i"
  have "?row \<in> set (fst (generateTicket rnd k))"
    using assms(1) g by (intro nth_mem) simp
  then have "row_in_range ?row"
    using generateTicket_rows_in_range [of rnd k] by blast
  moreover from \<open>i < 3\<close> consider "i = 0" | "i = 1" | "i = 2" by linarith
  then have "j < length ?row"
    using g l assms(2) by cases simp_all
  ultimately have "in_column_range j n"
    using assms(3) unfolding row_in_range_def by blast
  moreover have "length (init_columns ! j) = 10"
  proof -
    from \<open>j < 9\<close> consider "j = 0" | "j = 1" | "j = 2" | "j = 3" | "j = 4"
        | "j = 5" | "j = 6" | "j = 7" | "j = 8"
      by linarith
    then show ?thesis
      by cases (simp_all add: init_columns_eq del: upt_rec_numeral)
  qed
  ultimately show ?thesis by (simp add: in_column_range_def)
qed

theorem generateTicket_column_ranges_witness:
  "(0::nat) < 3 \<and> (0::nat) < 9 \<and> fst (generateTicket always_last 0) ! 0 ! 0 = Number 10
   \<and> 10 * 0 + 1 \<le> (10::nat) \<and> (10::nat) \<le> 10 * 0 + 10 \<and> length (init_columns ! 0) = 10"
proof -
  have a: "fst (generateTicket always_last 0) ! 0 ! 0 = Number 10"
    by code_simp
  from generateTicket_column_ranges [of 0 0 always_last 0 10, OF _ _ a] a
  show ?thesis by simp
qed

text \<open>
  C2 as stated fails: with a random source that always returns 0.9, the first cell of
  column 0 is 10, outside the range 1 to 9 that the specification gives column 0, and the
  pool of column 0 starts with 10 numbers, not 9.
\<close>

theorem column_zero_holds_ten:
  "in_unit_interval always_last
   \<and> fst (generateTicket always_last 0) ! 0 ! 0 = Number 10
   \<and> \<not> spec_column_range 0 10
   \<and> length (init_columns ! 0) = 10"
proof -
  have "in_unit_interval always_last"
    by (simp add: in_unit_interval_def always_last_def)
  moreover have "fst (generateTicket always_last 0) ! 0 ! 0 = Number 10"
    by code_simp
  moreover have "\<not> spec_column_range 0 10"
    by (simp add: spec_column_range_def)
  moreover have "length (init_columns ! 0) = 10"
    by (simp add: init_columns_eq del: upt_rec_numeral)
  ultimately show ?thesis by simp
qed

text \<open>
  C1 at a concrete run: with a random source that always returns 0, each of the three
  rows of the grid has 9 numeric cells and no blank cell, where the claim asks for 5
  and 4.
\<close>

theorem generateTicket_rows_full:
  "map numeric_cells (fst (generateTicket always_first 0)) = [9, 9, 9]
   \<and> map blank_cells (fst (generateTicket always_first 0)) = [0, 0, 0]"
  by code_simp
section \<open>The claims about identifiers and routes\<close>

text \<open>
  C6 at concrete inputs: when \<^verbatim>\<open>Math.random()\<close> returns 0 its base-36 form is \<^verbatim>\<open>0\<close>,
  nothing is left after the first two characters, and the identifier is the base-36
  timestamp alone; when it returns 0.5 the form is \<^verbatim>\<open>0.i\<close> and the identifier ends in
  one random character. The claim asks for exactly 5 random characters.
\<close>

theorem generateUniqueTicketId_short_random_part:
  "random_part 0 = [] \<and> generateUniqueTicketId 1700000000000 0 = ''loyw3v28''
   \<and> int_toString36 1700000000000 = ''loyw3v28''
   \<and> generateUniqueTicketId 1700000000000 (1 / 2) = ''loyw3v28i''"
  by (simp add: id_eval)

text \<open>
  C7 at a concrete pair of requests that differ in the user name only: both carry no
  password, \<^verbatim>\<open>alice\<close> is registered and \<^verbatim>\<open>bob\<close> is not. The unknown user name is answered
  with 401 and the message \<^verbatim>\<open>Invalid username or password\<close>; for the known one
  \<^verbatim>\<open>bcrypt.compare\<close> rejects and the answer is 500 with \<^verbatim>\<open>An error occurred\<close>. The claim
  asks for identical responses.
\<close>

theorem login_missing_password_reveals_user:
  "login sample_auth alice_db (js ''bob'') None
     = \<lparr>status = 401, payload = Message ''Invalid username or password''\<rparr>
   \<and> login sample_auth alice_db (js ''alice'') None
     = \<lparr>status = 500, payload = Message ''An error occurred''\<rparr>"
  by (simp add: login_def bcrypt_compare_def sample_auth_def sample_users_find_ok_def
      alice_db_def alice_def js_def)

text \<open>
  C8, as the code has it: \<open>register\<close> answers 400 with a list of validation errors
  exactly when the user name is empty after trimming, the password has a length below 6
  as \<^verbatim>\<open>isLength\<close> counts it, the address does not pass \<^verbatim>\<open>isEmail\<close>, or the name is empty
  after trimming; the store is then unchanged. For input that passes validation it
  answers 400 with the conflict message exactly when the lookup is not rejected and a
  stored user has the trimmed user name or the normalised address; when such a user is
  stored, the store is unchanged.
\<close>

theorem register_errors:
  fixes a d uname pw mail nm
  defines "answer \<equiv> register a d uname pw mail nm"
  defines "invalid \<equiv>
    trim uname = [] \<or> isLength_len pw < 6 \<or> \<not> lib_isEmail a mail \<or> trim nm = []"
  defines "taken \<equiv>
    \<exists>u \<in> set (users d). username u = trim uname \<or> email u = lib_normalizeEmail a mail"
  shows "((\<exists>errors. fst answer = \<lparr>status = 400, payload = Errors errors\<rparr>) \<longleftrightarrow> invalid)
    \<and> (invalid \<longrightarrow> snd answer = d)
    \<and> (\<not> invalid \<longrightarrow>
         (fst answer = \<lparr>status = 400, payload = Message ''Username or email already exists''\<rparr>
            \<longleftrightarrow> users_find_ok a (users d) \<and> taken)
         \<and> (taken \<longrightarrow> snd answer = d))"
proof (cases invalid)
  case True
  then have "validationResult (lib_isEmail a) uname pw mail nm \<noteq> []"
    using validationResult_empty [of "lib_isEmail a" uname pw mail nm] by (simp add: invalid_def)
  then have "answer
      = (\<lparr>status = 400, payload = Errors (validationResult (lib_isEmail a) uname pw mail nm)\<rparr>, d)"
    by (simp add: answer_def register_def)
  with True show ?thesis by simp
next
  case False
  then have v: "validationResult (lib_isEmail a) uname pw mail nm = []"
    using validationResult_empty [of "lib_isEmail a" uname pw mail nm] by (simp add: invalid_def)
  let ?f = "find (\<lambda>u. username u = trim uname \<or> email u = lib_normalizeEmail a mail) (users d)"
  have t: "taken \<longleftrightarrow> ?f \<noteq> None"
    by (auto simp: taken_def find_None_iff)
  show ?thesis
  proof (cases "users_find_ok a (users d)")
    case rejected: False
    with v have "answer = (\<lparr>status = 500, payload = Message ''An error occurred''\<rparr>, d)"
      by (simp add: answer_def register_def)
    with rejected False show ?thesis by simp
  next
    case found: True
    show ?thesis
    proof (cases ?f)
      case None
      with v found
      have "fst answer \<noteq> \<lparr>status = 400, payload = Message ''Username or email already exists''\<rparr>"
        and "\<forall>errors. fst answer \<noteq> \<lparr>status = 400, payload = Errors errors\<rparr>"
        by (auto simp: answer_def register_def Let_def split: option.splits)
      with None False t show ?thesis by simp
    next
      case (Some u)
      with v found
      have "answer
          = (\<lparr>status = 400, payload = Message ''Username or email already exists''\<rparr>, d)"
        by (simp add: answer_def register_def)
      with Some False t found show ?thesis by simp
    qed
  qed
qed

theorem register_errors_witness:
  "\<not> (trim (js ''alice'') = [] \<or> isLength_len (js ''secret1'') < 6
        \<or> \<not> lib_isEmail sample_auth (js ''b@x.com'') \<or> trim (js ''Alice'') = [])
   \<and> users_find_ok sample_auth (users alice_db)
   \<and> (\<exists>u \<in> set (users alice_db).
         username u = trim (js ''alice'')
         \<or> email u = lib_normalizeEmail sample_auth (js ''b@x.com''))
   \<and> register sample_auth alice_db (js ''alice'') (js ''secret1'') (js ''b@x.com'') (js ''Alice'')
       = (\<lparr>status = 400, payload = Message ''Username or email already exists''\<rparr>, alice_db)"
proof -
  have v: "\<not> (trim (js ''alice'') = [] \<or> isLength_len (js ''secret1'') < 6
        \<or> \<not> lib_isEmail sample_auth (js ''b@x.com'') \<or> trim (js ''Alice'') = [])"
    by (simp add: js_eval sample_auth_def sample_isEmail_def)
  have f: "users_find_ok sample_auth (users alice_db)"
    by (simp add: sample_auth_def sample_users_find_ok_def)
  have t: "\<exists>u \<in> set (users alice_db).
         username u = trim (js ''alice'')
         \<or> email u = lib_normalizeEmail sample_auth (js ''b@x.com'')"
    by (simp add: alice_db_def alice_def js_eval)
  from register_errors [where a = sample_auth and d = alice_db and uname = "js ''alice''"
      and mail = "js ''b@x.com''" and pw = "js ''secret1''" and nm = "js ''Alice''"] v f t
  show ?thesis by (simp add: prod_eq_iff)
qed

text \<open>
  C8 as stated fails. A user name of two spaces is not empty, yet the request is
  answered with a validation error. A request with the user name \<^verbatim>\<open>alice\<close> followed by a
  space is answered with the conflict message although no stored user has that user name
  or that address: the stored user has the trimmed name. And when the lookup is rejected,
  a request with the user name and address of a stored user is answered with 500, not
  with the conflict message.
\<close>

theorem register_rejects_blank_username:
  "js ''  '' \<noteq> [] \<and> \<not> isLength_len (js ''secret1'') < 6
   \<and> lib_isEmail sample_auth (js ''a@x.com'') \<and> js ''Alice'' \<noteq> []
   \<and> register sample_auth empty_db (js ''  '') (js ''secret1'') (js ''a@x.com'') (js ''Alice'')
       = (\<lparr>status = 400, payload = Errors [''username'']\<rparr>, empty_db)
   \<and> \<not> (\<exists>u \<in> set (users alice_db). username u = js ''alice '' \<or> email u = js ''z@x.com'')
   \<and> register sample_auth alice_db (js ''alice '') (js ''secret1'') (js ''z@x.com'') (js ''Alice'')
       = (\<lparr>status = 400, payload = Message ''Username or email already exists''\<rparr>, alice_db)
   \<and> register rejecting_auth alice_db (js ''alice'') (js ''secret1'') (js ''a@x.com'') (js ''Alice'')
       = (\<lparr>status = 500, payload = Message ''An error occurred''\<rparr>, alice_db)"
  by (simp add: register_def validationResult_def js_eval sample_auth_def rejecting_auth_def
      sample_isEmail_def sample_normalizeEmail_def sample_users_find_ok_def
      sample_users_find_reject_def alice_db_def alice_def)

text \<open>
  C9: when the \<^verbatim>\<open>Authorization\<close> header is absent, or the token it carries does not
  verify, POST /tickets and GET /tickets/:id both answer with status 401 and leave the
  store as it was.
\<close>

theorem unauthorised_ticket_requests:
  assumes "authorization = None
     \<or> (\<forall>token. header_token authorization = Some token \<longrightarrow> jwt_verify e token = None)"
  shows "(\<exists>r. post_tickets e k c authorization numTickets d = Some (r, d) \<and> status r = 401)
    \<and> (\<exists>r. get_tickets e authorization ident page limit d = (r, d) \<and> status r = 401)"
proof -
  from verifyToken_denied [OF assms]
  obtain r where "verifyToken (jwt_verify e) authorization = Inl r" and "status r = 401"
    by blast
  then show ?thesis by (simp add: post_tickets_def get_tickets_def)
qed

theorem unauthorised_ticket_requests_witness:
  "header_token (Some ''Bearer bad'') = Some ''bad''
   \<and> jwt_verify sample_env ''bad'' = None
   \<and> post_tickets sample_env 0 0 (Some ''Bearer bad'') (JNumber (Finite 2)) empty_db
       = Some (\<lparr>status = 401, payload = Message ''Invalid token''\<rparr>, empty_db)
   \<and> get_tickets sample_env None ''loyw3v28'' (Some ''1'') (Some ''10'') empty_db
       = (\<lparr>status = 401, payload = Message ''Access denied. No token provided''\<rparr>, empty_db)"
proof -
  have h: "header_token (Some ''Bearer bad'') = Some ''bad''"
    by (simp add: header_token_def)
  have v: "jwt_verify sample_env ''bad'' = None"
    by (simp add: sample_env_def sample_verify_def)
  have a: "Some ''Bearer bad'' = None
     \<or> (\<forall>token. header_token (Some ''Bearer bad'') = Some token
            \<longrightarrow> jwt_verify sample_env token = None)"
    by (simp add: h v)
  from unauthorised_ticket_requests [where authorization = "Some ''Bearer bad''"
        and e = sample_env and k = 0 and c = 0 and numTickets = "JNumber (Finite 2)"
        and d = empty_db, OF a]
  have p: "post_tickets sample_env 0 0 (Some ''Bearer bad'') (JNumber (Finite 2)) empty_db
       = Some (\<lparr>status = 401, payload = Message ''Invalid token''\<rparr>, empty_db)"
    by (simp add: post_tickets_def verifyToken_def h v)
  from unauthorised_ticket_requests [where authorization = None and e = sample_env
        and ident = "''loyw3v28''" and page = "Some ''1''" and limit = "Some ''10''"
        and d = empty_db]
  have g: "get_tickets sample_env None ''loyw3v28'' (Some ''1'') (Some ''10'') empty_db
       = (\<lparr>status = 401, payload = Message ''Access denied. No token provided''\<rparr>, empty_db)"
    by (simp add: get_tickets_def verifyToken_def header_token_def)
  from h v p g show ?thesis by simp
qed

text \<open>
  C10, as the code has it: for an authorised POST /tickets request whose \<^verbatim>\<open>numTickets\<close>
  converts to \<^verbatim>\<open>NaN\<close>, to \<open>-\<infinity>\<close> or to a number that is zero or negative (a missing
  field, \<^verbatim>\<open>null\<close>, \<^verbatim>\<open>false\<close>, 0 and the negative numbers among them), the response is 200
  with an empty array and the store is unchanged. For a natural number \<open>n\<close>, when the
  database accepts every insertion, the response is 200 with an array of exactly \<open>n\<close>
  records of a ticket identifier and a grid, and these are the records appended to the
  store.
\<close>

theorem post_tickets_count:
  assumes "verifyToken (jwt_verify e) authorization = Inr user_name"
  shows "((to_number (str_to_number e) numTickets = NaN
           \<or> to_number (str_to_number e) numTickets = NegInf
           \<or> (\<exists>q. q \<le> 0 \<and> to_number (str_to_number e) numTickets = Finite q))
          \<longrightarrow> post_tickets e k c authorization numTickets d
                = Some (\<lparr>status = 200, payload = Tickets []\<rparr>, d))
    \<and> ((\<forall>stored t. create_ok e stored t)
          \<longrightarrow> (\<exists>ts. post_tickets e k c authorization (JNumber (Finite (of_nat n))) d
                      = Some (\<lparr>status = 200, payload = Tickets ts\<rparr>, d\<lparr>tickets := tickets d @ ts\<rparr>)
                    \<and> length ts = n))"
proof (intro conjI impI)
  assume "to_number (str_to_number e) numTickets = NaN
    \<or> to_number (str_to_number e) numTickets = NegInf
    \<or> (\<exists>q. q \<le> 0 \<and> to_number (str_to_number e) numTickets = Finite q)"
  then consider "to_number (str_to_number e) numTickets = NaN"
    | "to_number (str_to_number e) numTickets = NegInf"
    | q where "q \<le> 0" "to_number (str_to_number e) numTickets = Finite q"
    by blast
  then show "post_tickets e k c authorization numTickets d
      = Some (\<lparr>status = 200, payload = Tickets []\<rparr>, d)"
  proof cases
    case 1
    with assms show ?thesis by (simp add: post_tickets_def)
  next
    case 2
    with assms show ?thesis by (simp add: post_tickets_def)
  next
    case 3
    then have "\<not> of_nat 0 < q" by simp
    then have "tickets_loop e q 0 (k, c, tickets d, []) = Inr (tickets d, [])"
      by (simp add: tickets_loop.simps)
    with assms 3 show ?thesis by (simp add: post_tickets_def)
  qed
next
  assume ok: "\<forall>stored t. create_ok e stored t"
  have "nat \<lceil>(of_nat n :: rat)\<rceil> - 0 = n" by simp
  from tickets_loop_all_created [OF ok this, of k c "tickets d" "[]"]
  obtain ts where "tickets_loop e (of_nat n) 0 (k, c, tickets d, []) = Inr (tickets d @ ts, ts)"
    and "length ts = n"
    by auto
  with assms show "\<exists>ts. post_tickets e k c authorization (JNumber (Finite (of_nat n))) d
      = Some (\<lparr>status = 200, payload = Tickets ts\<rparr>, d\<lparr>tickets := tickets d @ ts\<rparr>)
      \<and> length ts = n"
    by (simp add: post_tickets_def)
qed

theorem post_tickets_count_witness:
  "verifyToken (jwt_verify sample_env) (Some ''Bearer good'') = Inr ''alice''
   \<and> to_number (str_to_number sample_env) JUndefined = NaN
   \<and> post_tickets sample_env 0 0 (Some ''Bearer good'') JUndefined empty_db
       = Some (\<lparr>status = 200, payload = Tickets []\<rparr>, empty_db)
   \<and> (\<forall>stored t. create_ok sample_env stored t)
   \<and> (\<exists>ts. post_tickets sample_env 0 0 (Some ''Bearer good'') (JNumber (Finite (of_nat 2))) empty_db
             = Some (\<lparr>status = 200, payload = Tickets ts\<rparr>,
                     empty_db\<lparr>tickets := tickets empty_db @ ts\<rparr>)
           \<and> length ts = 2)"
proof -
  have n: "to_number (str_to_number sample_env) JUndefined = NaN" by simp
  have ok: "\<forall>stored t. create_ok sample_env stored t"
    by (simp add: sample_env_def sample_create_ok_def)
  from post_tickets_count [OF sample_authorised, of JUndefined 0 0 empty_db 2] n ok
  show ?thesis using sample_authorised by simp
qed

text \<open>
  C10 as stated fails for a value that is not a number but converts to a positive one:
  with \<^verbatim>\<open>numTickets\<close> the JSON value \<^verbatim>\<open>true\<close> the loop test \<^verbatim>\<open>0 < true\<close> holds, one
  ticket is created and stored, and the response array has one element. And for
  \<^verbatim>\<open>numTickets\<close> = 1 with a database that rejects the insertion, the response is a 500
  with a message, not an array of one element.
\<close>

theorem post_tickets_true_creates_one:
  "post_tickets sample_env 0 0 (Some ''Bearer good'') (JBool True) empty_db
     = Some (\<lparr>status = 200, payload = Tickets
          [\<lparr>ticketId = ''loyw3v28'', ticketData = fst (generateTicket always_first 0)\<rparr>]\<rparr>,
        \<lparr>users = [], tickets =
          [\<lparr>ticketId = ''loyw3v28'', ticketData = fst (generateTicket always_first 0)\<rparr>]\<rparr>)
   \<and> post_tickets rejecting_env 0 0 (Some ''Bearer good'') (JNumber (Finite 1)) empty_db
     = Some (\<lparr>status = 500, payload = Message ''An error occurred''\<rparr>, empty_db)"
proof -
  have i: "generateUniqueTicketId 1700000000000 0 = ''loyw3v28''"
    by (simp add: id_eval)
  have l: "tickets_loop sample_env 1 0 (0, 0, [], [])
      = Inr ([\<lparr>ticketId = ''loyw3v28'', ticketData = fst (generateTicket always_first 0)\<rparr>],
             [\<lparr>ticketId = ''loyw3v28'', ticketData = fst (generateTicket always_first 0)\<rparr>])"
    by (simp add: tickets_loop.simps sample_env_def first_ticket_grid i sample_clock_def
        always_first_def [of 27] sample_create_ok_def Let_def)
  have a: "post_tickets sample_env 0 0 (Some ''Bearer good'') (JBool True) empty_db
     = Some (\<lparr>status = 200, payload = Tickets
          [\<lparr>ticketId = ''loyw3v28'', ticketData = fst (generateTicket always_first 0)\<rparr>]\<rparr>,
        \<lparr>users = [], tickets =
          [\<lparr>ticketId = ''loyw3v28'', ticketData = fst (generateTicket always_first 0)\<rparr>]\<rparr>)"
    by (simp add: post_tickets_def sample_authorised l empty_db_def)
  have v: "verifyToken (jwt_verify rejecting_env) (Some ''Bearer good'') = Inr ''alice''"
    by (simp add: verifyToken_def header_token_def rejecting_env_def sample_verify_def)
  have r: "tickets_loop rejecting_env 1 0 (0, 0, [], []) = Inl []"
    by (simp add: tickets_loop.simps rejecting_env_def first_ticket_grid
        sample_create_reject_def Let_def)
  have b: "post_tickets rejecting_env 0 0 (Some ''Bearer good'') (JNumber (Finite 1)) empty_db
     = Some (\<lparr>status = 500, payload = Message ''An error occurred''\<rparr>, empty_db)"
    by (simp add: post_tickets_def v r empty_db_def)
  from a b show ?thesis by simp
qed

end
